theory Spec2Isabelle
  imports Main
begin

section \<open>The visitors table\<close>

text \<open>
  The routes of \<^verbatim>\<open>routes/visitors.js\<close> read and write one table, \<^verbatim>\<open>visitors\<close>, through
  \<^verbatim>\<open>db.query\<close>. The columns are the ones the statements of that file name. The twelve
  columns that the request body supplies form one record; a row extends it with the
  columns the body never supplies.
\<close>

datatype qr_state = unused | used

text \<open>
  A text field of the multipart body is a string, or \<^verbatim>\<open>undefined\<close> when the field is
  absent; the driver sends \<^verbatim>\<open>undefined\<close> as \<^verbatim>\<open>NULL\<close>. \<open>None\<close> is both.
\<close>

record visitor_form =
  first_name :: "string option"
  last_name :: "string option"
  email :: "string option"
  phone :: "string option"
  gender :: "string option"
  company_id :: "string option"
  department_id :: "string option"
  designation_id :: "string option"
  whom_to_meet :: "string option"
  purpose :: "string option"
  aadhar_no :: "string option"
  address :: "string option"

text \<open>
  Modelled from the spec: the declaration of the table is not part of the sources. The
  key \<open>id_col\<close> is a number assigned by the store, \<open>qr_status\<close> is the enumeration
  \<^verbatim>\<open>unused\<close>/\<^verbatim>\<open>used\<close>, and \<open>status\<close> is a boolean flag, \<open>None\<close> being \<^verbatim>\<open>NULL\<close>.
\<close>

record visitor = visitor_form +
  id_col :: nat
  image_col :: "string option"
  qr_status :: qr_state
  status :: "bool option"

text \<open>SQL \<^verbatim>\<open>NOT\<close>: three-valued, \<^verbatim>\<open>NOT NULL\<close> is \<^verbatim>\<open>NULL\<close>.\<close>

fun sql_not :: "bool option \<Rightarrow> bool option" where
  "sql_not None = None"
| "sql_not (Some b) = Some (\<not> b)"

section \<open>The store behind \<^verbatim>\<open>db.query\<close>\<close>

type_synonym err = string

text \<open>The statements that \<^verbatim>\<open>routes/visitors.js\<close> sends, with their parameters.\<close>

datatype stmt =
    Select_all
  | Select_by_id string
  | Update_visitor visitor_form "string option" string
  | Toggle_status string
  | Set_qr_used string

datatype result = Result_rows "visitor list" | Ok_packet

text \<open>
  The store holds the rows of the table. Two things about it are outside the sources and
  are left open: how the store compares the key of a row with the (string) parameter of
  \<^verbatim>\<open>WHERE id = ?\<close>, which is the field \<open>id_matches\<close>, and when a statement fails, which is
  the field \<open>faults\<close>: the outcomes of the statements to come, in order, \<open>Some e\<close> for a
  statement that fails with \<open>e\<close>; past the end of the list no statement fails.
\<close>

record store =
  rows :: "visitor list"
  id_matches :: "string \<Rightarrow> nat \<Rightarrow> bool"
  faults :: "err option list"

definition where_id :: "store \<Rightarrow> string \<Rightarrow> visitor \<Rightarrow> bool" where
  "where_id st p r = id_matches st p (id_col r)"

definition update_where :: "store \<Rightarrow> string \<Rightarrow> (visitor \<Rightarrow> visitor) \<Rightarrow> visitor list" where
  "update_where st p f = map (\<lambda>r. if where_id st p r then f r else r) (rows st)"

text \<open>
  \<^verbatim>\<open>UPDATE visitors SET first_name = ?, ..., address = ? [, image = ?] WHERE id = ?\<close>:
  the assignments of one row.
\<close>

definition set_form :: "visitor_form \<Rightarrow> string option \<Rightarrow> visitor \<Rightarrow> visitor" where
  "set_form f img r =
     (let r' = r\<lparr>first_name := first_name f, last_name := last_name f, email := email f,
                 phone := phone f, gender := gender f, company_id := company_id f,
                 department_id := department_id f, designation_id := designation_id f,
                 whom_to_meet := whom_to_meet f, purpose := purpose f,
                 aadhar_no := aadhar_no f, address := address f\<rparr>
      in case img of None \<Rightarrow> r' | Some i \<Rightarrow> r'\<lparr>image_col := Some i\<rparr>)"

fun exec_rows :: "stmt \<Rightarrow> store \<Rightarrow> visitor list" where
  "exec_rows Select_all st = rows st"
| "exec_rows (Select_by_id p) st = rows st"
| "exec_rows (Update_visitor f img p) st = update_where st p (set_form f img)"
| "exec_rows (Toggle_status p) st = update_where st p (\<lambda>r. r\<lparr>status := sql_not (status r)\<rparr>)"
| "exec_rows (Set_qr_used p) st = update_where st p (\<lambda>r. r\<lparr>qr_status := used\<rparr>)"

definition select_by_id :: "store \<Rightarrow> string \<Rightarrow> visitor list" where
  "select_by_id st p = filter (where_id st p) (rows st)"

fun exec_result :: "stmt \<Rightarrow> store \<Rightarrow> result" where
  "exec_result Select_all st = Result_rows (rows st)"
| "exec_result (Select_by_id p) st = Result_rows (select_by_id st p)"
| "exec_result (Update_visitor f img p) st = Ok_packet"
| "exec_result (Toggle_status p) st = Ok_packet"
| "exec_result (Set_qr_used p) st = Ok_packet"

definition fault_now :: "store \<Rightarrow> err option" where
  "fault_now st = (case faults st of [] \<Rightarrow> None | f # fs \<Rightarrow> f)"

text \<open>
  One call of \<^verbatim>\<open>db.query\<close>: the outcome handed to the callback, and the store afterwards.
  A statement that fails changes no row.
\<close>

definition db_query :: "stmt \<Rightarrow> store \<Rightarrow> (err + result) \<times> store" where
  "db_query s st =
     (case fault_now st of
        Some e \<Rightarrow> (Inl e, st\<lparr>faults := tl (faults st)\<rparr>)
      | None \<Rightarrow> (Inr (exec_result s st), st\<lparr>rows := exec_rows s st, faults := tl (faults st)\<rparr>))"

section \<open>Responses\<close>

datatype body =
    Html string
  | Json_message string
  | Json_qr string
  | Json_created nat string
  | Json_rows "visitor list"
  | Json_row "visitor option"
  | Error_body err

record response =
  code :: nat
  body :: body

text \<open>\<^verbatim>\<open>res.send(x)\<close> and \<^verbatim>\<open>res.json(x)\<close> answer with status 200.\<close>

definition ok :: "body \<Rightarrow> response" where
  "ok b = \<lparr>code = 200, body = b\<rparr>"

text \<open>\<^verbatim>\<open>res.status(500).send(err)\<close>\<close>

definition send_500 :: "err \<Rightarrow> response" where
  "send_500 e = \<lparr>code = 500, body = Error_body e\<rparr>"

section \<open>The redemption URL and the encoder\<close>

definition signout_url :: string where
  "signout_url = ''http://localhost:3001/api/visitors/signout/''"

text \<open>The template string \<^verbatim>\<open>`http://localhost:3001/api/visitors/signout/${id}`\<close>.\<close>

definition qrText :: "string \<Rightarrow> string" where
  "qrText ident = signout_url @ ident"

text \<open>
  \<^verbatim>\<open>${visitorId}\<close> for the number \<^verbatim>\<open>result.insertId\<close>: its decimal digits.
\<close>

definition digit_char :: "nat \<Rightarrow> char" where
  "digit_char d = ''0123456789'' ! d"

fun digits :: "nat \<Rightarrow> string" where
  "digits n = (if n < 10 then [digit_char n] else digits (n div 10) @ [digit_char (n mod 10)])"

declare digits.simps [simp del]

text \<open>
  \<^verbatim>\<open>QRCode.toDataURL\<close> is a library: a function from the text to the data URL of the
  image, or an error. The handlers take it as the parameter \<open>enc\<close>.
\<close>

type_synonym encoder = "string \<Rightarrow> err + string"

section \<open>The handlers of \<^verbatim>\<open>routes/visitors.js\<close>\<close>

text \<open>
  \<^verbatim>\<open>GET /\<close> and \<^verbatim>\<open>GET /:id\<close>. \<^verbatim>\<open>result[0]\<close> is \<^verbatim>\<open>undefined\<close> when no row matches. (A
  \<^verbatim>\<open>SELECT\<close> never answers with \<open>Ok_packet\<close>; that case only makes the functions total.)
\<close>

definition first_row :: "visitor list \<Rightarrow> visitor option" where
  "first_row rs = (case rs of [] \<Rightarrow> None | r # _ \<Rightarrow> Some r)"

definition get_all :: "store \<Rightarrow> response \<times> store" where
  "get_all st =
     (case db_query Select_all st of
        (Inl e, st') \<Rightarrow> (send_500 e, st')
      | (Inr (Result_rows rs), st') \<Rightarrow> (ok (Json_rows rs), st')
      | (Inr Ok_packet, st') \<Rightarrow> (ok (Json_rows []), st'))"

definition get_by_id :: "string \<Rightarrow> store \<Rightarrow> response \<times> store" where
  "get_by_id ident st =
     (case db_query (Select_by_id ident) st of
        (Inl e, st') \<Rightarrow> (send_500 e, st')
      | (Inr (Result_rows rs), st') \<Rightarrow> (ok (Json_row (first_row rs)), st')
      | (Inr Ok_packet, st') \<Rightarrow> (ok (Json_row None), st'))"

text \<open>
  \<^verbatim>\<open>PUT /:id\<close>. \<open>file\<close> is \<^verbatim>\<open>req.file?.filename\<close>; \<^verbatim>\<open>if (image)\<close> holds for a non-empty
  string, and only then is \<^verbatim>\<open>image = ?\<close> part of the statement.
\<close>

definition truthy :: "string option \<Rightarrow> bool" where
  "truthy x = (case x of None \<Rightarrow> False | Some s \<Rightarrow> s \<noteq> [])"

definition put_callback :: "string \<Rightarrow> err + result \<Rightarrow> response" where
  "put_callback msg out = (case out of Inl e \<Rightarrow> send_500 e | Inr _ \<Rightarrow> ok (Json_message msg))"

definition put_visitor :: "string \<Rightarrow> visitor_form \<Rightarrow> string option \<Rightarrow> store \<Rightarrow> response \<times> store" where
  "put_visitor ident f file st =
     (let image = file;
          (out, st') = db_query (Update_visitor f (if truthy image then image else None) ident) st
      in (put_callback ''Visitor updated successfully'' out, st'))"

text \<open>\<^verbatim>\<open>PUT /:id/status\<close>\<close>

definition put_status :: "string \<Rightarrow> store \<Rightarrow> response \<times> store" where
  "put_status ident st =
     (let (out, st') = db_query (Toggle_status ident) st
      in (put_callback ''Status toggled'' out, st'))"

text \<open>\<^verbatim>\<open>GET /:id/card\<close>: no statement is sent.\<close>

definition get_card :: "encoder \<Rightarrow> string \<Rightarrow> store \<Rightarrow> response \<times> store" where
  "get_card enc ident st =
     (case enc (qrText ident) of
        Inl e \<Rightarrow> (send_500 e, st)
      | Inr qr \<Rightarrow> (ok (Json_qr qr), st))"

text \<open>\<^verbatim>\<open>GET /signout/:id\<close>: the callback, and the handler that sends the statement.\<close>

definition signout_page :: "string \<Rightarrow> body" where
  "signout_page ident =
     Html (''<h2>Visitor ID '' @ ident @ '' signed out successfully. QR is now invalid.</h2>'')"

definition signout_callback :: "string \<Rightarrow> err + result \<Rightarrow> response" where
  "signout_callback ident out =
     (case out of Inl e \<Rightarrow> send_500 e | Inr _ \<Rightarrow> ok (signout_page ident))"

definition signout :: "string \<Rightarrow> store \<Rightarrow> response \<times> store" where
  "signout ident st =
     (let (out, st') = db_query (Set_qr_used ident) st
      in (signout_callback ident out, st'))"

text \<open>
  \<^verbatim>\<open>POST /\<close>, the callback of the \<^verbatim>\<open>INSERT\<close>: on success it awaits the encoder on the URL
  of \<^verbatim>\<open>result.insertId\<close>. The callback is \<^verbatim>\<open>async\<close> and nothing catches a rejection of the
  encoder, so then no response is sent.
\<close>

datatype reply = Responded response | Unhandled_rejection err

definition post_callback :: "encoder \<Rightarrow> err + nat \<Rightarrow> reply" where
  "post_callback enc out =
     (case out of
        Inl e \<Rightarrow> Responded (send_500 e)
      | Inr insertId \<Rightarrow>
          (case enc (qrText (digits insertId)) of
             Inl e \<Rightarrow> Unhandled_rejection e
           | Inr qrDataURL \<Rightarrow> Responded (ok (Json_created insertId qrDataURL))))"

section \<open>Requests and runs\<close>

text \<open>
  The four operations on a visitor after its creation, and a run of requests handled one
  after the other.
\<close>

datatype request =
    RedeemToken string
  | ToggleCheckInStatus string
  | UpdateVisitor string visitor_form "string option"
  | IssueToken string

fun handle :: "encoder \<Rightarrow> request \<Rightarrow> store \<Rightarrow> response \<times> store" where
  "handle enc (RedeemToken p) st = signout p st"
| "handle enc (ToggleCheckInStatus p) st = put_status p st"
| "handle enc (UpdateVisitor p f file) st = put_visitor p f file st"
| "handle enc (IssueToken p) st = get_card enc p st"

fun run :: "encoder \<Rightarrow> request list \<Rightarrow> store \<Rightarrow> store" where
  "run enc [] st = st"
| "run enc (q # qs) st = run enc qs (snd (handle enc q st))"

section \<open>Two requests at once\<close>

text \<open>
  A sign-out request takes two steps: the store executes its statement, and later the
  callback sends the response. The steps of two requests for the same id, from two
  devices, may interleave in any order; a schedule says which request moves next
  (\<open>True\<close> for the second one). A step of a finished request does nothing.
\<close>

datatype phase = Sent | Answered "err + result" | Finished response

fun advance :: "string \<Rightarrow> phase \<times> store \<Rightarrow> phase \<times> store" where
  "advance p (Sent, st) = (let (out, st') = db_query (Set_qr_used p) st in (Answered out, st'))"
| "advance p (Answered out, st) = (Finished (signout_callback p out), st)"
| "advance p (Finished r, st) = (Finished r, st)"

fun interleave :: "string \<Rightarrow> bool list \<Rightarrow> phase \<times> phase \<times> store \<Rightarrow> phase \<times> phase \<times> store" where
  "interleave p [] c = c"
| "interleave p (second # sch) (a, b, st) =
     (if second then (let (b', st') = advance p (b, st) in interleave p sch (a, b', st'))
      else (let (a', st') = advance p (a, st) in interleave p sch (a', b, st')))"

definition no_faults :: "store \<Rightarrow> bool" where
  "no_faults st = list_all (\<lambda>f. f = None) (faults st)"

section \<open>Reading a token back\<close>

text \<open>
  The sources hold no decoder. These two follow the spec's words, "decode the resulting
  token's embedded id": the id is what follows \<^verbatim>\<open>.../signout/\<close> in the URL, and a numeric id
  is read from its decimal digits.
\<close>

definition embedded_id :: "string \<Rightarrow> string option" where
  "embedded_id url =
     (if take (length signout_url) url = signout_url
      then Some (drop (length signout_url) url) else None)"

definition digit_val :: "char \<Rightarrow> nat option" where
  "digit_val c =
     (if c \<in> set ''0123456789''
      then Some (length (takeWhile (\<lambda>d. d \<noteq> c) ''0123456789'')) else None)"

fun read_digits :: "nat \<Rightarrow> string \<Rightarrow> nat option" where
  "read_digits acc [] = Some acc"
| "read_digits acc (c # cs) =
     (case digit_val c of None \<Rightarrow> None | Some d \<Rightarrow> read_digits (10 * acc + d) cs)"

definition read_nat :: "string \<Rightarrow> nat option" where
  "read_nat s = (if s = [] then None else read_digits 0 s)"

section \<open>A front desk to evaluate on\<close>

text \<open>
  A store with two visitors, in which a request id matches the row whose key it is the
  decimal numeral of, and an encoder that prefixes the text.
\<close>

definition decimal_match :: "string \<Rightarrow> nat \<Rightarrow> bool" where
  "decimal_match p k = (read_nat p = Some k)"

definition blank_form :: visitor_form where
  "blank_form = \<lparr>first_name = None, last_name = None, email = None, phone = None,
     gender = None, company_id = None, department_id = None, designation_id = None,
     whom_to_meet = None, purpose = None, aadhar_no = None, address = None\<rparr>"

definition guest :: "nat \<Rightarrow> string \<Rightarrow> qr_state \<Rightarrow> visitor" where
  "guest k name q = \<lparr>first_name = Some name, last_name = None, email = None, phone = None,
     gender = None, company_id = None, department_id = None, designation_id = None,
     whom_to_meet = None, purpose = None, aadhar_no = None, address = None,
     id_col = k, image_col = Some ''1700000000000.png'', qr_status = q, status = Some True\<rparr>"

definition desk :: store where
  "desk = \<lparr>rows = [guest 7 ''Ravi'' used, guest 42 ''Asha'' unused],
           id_matches = decimal_match, faults = []\<rparr>"

definition plain_encoder :: encoder where
  "plain_encoder t = (if length t > 2331 then Inl ''The amount of data is too big''
                      else Inr (''data:text/plain,'' @ t))"

definition plain_decoder :: "string \<Rightarrow> string" where
  "plain_decoder q = drop 16 q"

section \<open>What two interleaved requests preserve\<close>

text \<open>
  The rows once the statement of \<^verbatim>\<open>GET /signout/:id\<close> has been executed; the phases a
  request can be in when the store never fails; the property of a configuration that
  every step keeps; and how far a request has come.
\<close>

definition redeemed_rows :: "store \<Rightarrow> string \<Rightarrow> visitor list" where
  "redeemed_rows st p = update_where st p (\<lambda>r. r\<lparr>qr_status := used\<rparr>)"

definition well :: "string \<Rightarrow> phase \<Rightarrow> bool" where
  "well p ph = (case ph of Sent \<Rightarrow> True | Answered out \<Rightarrow> \<not> isl out
                | Finished r \<Rightarrow> r = ok (signout_page p))"

definition consistent :: "store \<Rightarrow> string \<Rightarrow> phase \<times> phase \<times> store \<Rightarrow> bool" where
  "consistent st0 p c = (case c of (a, b, st) \<Rightarrow>
      no_faults st \<and> id_matches st = id_matches st0 \<and> well p a \<and> well p b
      \<and> rows st = (if a = Sent \<and> b = Sent then rows st0 else redeemed_rows st0 p))"

fun progress :: "phase \<Rightarrow> nat" where
  "progress Sent = 0"
| "progress (Answered out) = 1"
| "progress (Finished r) = 2"

text \<open>A store whose next statement fails and the one after would not, and a very long id.\<close>

definition flaky_desk :: store where
  "flaky_desk = desk\<lparr>faults := [Some ''read ECONNRESET'', None]\<rparr>"

definition long_id :: string where
  "long_id = replicate 3000 CHR ''9''"

section \<open>Facts about the store\<close>

lemma db_query_ok:
  "fault_now st = None \<Longrightarrow>
   db_query s st = (Inr (exec_result s st), st\<lparr>rows := exec_rows s st, faults := tl (faults st)\<rparr>)"
  by (simp add: db_query_def)

lemma db_query_fail:
  "fault_now st = Some e \<Longrightarrow> db_query s st = (Inl e, st\<lparr>faults := tl (faults st)\<rparr>)"
  by (simp add: db_query_def)

lemma db_query_id_matches [simp]: "id_matches (snd (db_query s st)) = id_matches st"
  by (simp add: db_query_def split: option.split)

lemma db_query_faults [simp]: "faults (snd (db_query s st)) = tl (faults st)"
  by (simp add: db_query_def split: option.split)

lemma db_query_rows:
  "rows (snd (db_query s st)) = (case fault_now st of Some e \<Rightarrow> rows st | None \<Rightarrow> exec_rows s st)"
  by (simp add: db_query_def split: option.split)

lemma where_id_cong: "id_matches st' = id_matches st \<Longrightarrow> where_id st' = where_id st"
  by (simp add: where_id_def fun_eq_iff)

text \<open>A selection after an update that keeps the keys: the updated selection.\<close>

lemma filter_update:
  assumes "\<And>r. P (f r) = P r"
  shows "filter P (map (\<lambda>r. if P r then f r else r) rs) = map f (filter P rs)"
  using assms by (induction rs) auto

lemma select_after_update:
  assumes "id_matches st' = id_matches st" and "rows st' = update_where st p f"
    and "\<And>r. id_col (f r) = id_col r"
  shows "select_by_id st' p = map f (select_by_id st p)"
proof -
  have w: "where_id st' = where_id st" using assms(1) by (rule where_id_cong)
  have k: "\<And>r. where_id st p (f r) = where_id st p r"
    by (simp add: where_id_def assms(3))
  show ?thesis
    unfolding select_by_id_def w assms(2) update_where_def
    by (rule filter_update) (rule k)
qed

lemma update_nothing:
  assumes "select_by_id st p = []"
  shows "update_where st p f = rows st"
proof -
  have "\<forall>r \<in> set (rows st). \<not> where_id st p r"
    using assms by (simp add: select_by_id_def filter_empty_conv)
  then show ?thesis
    unfolding update_where_def by (induction "rows st") (simp_all add: map_idI)
qed

lemma update_twice:
  assumes "id_matches st' = id_matches st" and "rows st' = update_where st p f"
    and "\<And>r. id_col (f r) = id_col r"
  shows "update_where st' p g = update_where st p (g \<circ> f)"
proof -
  have w: "where_id st' = where_id st" using assms(1) by (rule where_id_cong)
  have k: "\<And>r. where_id st p (f r) = where_id st p r"
    by (simp add: where_id_def assms(3))
  show ?thesis
    unfolding update_where_def w assms(2) by (simp add: k)
qed

section \<open>Facts about the sign-out handler\<close>

lemma signout_ok:
  "fault_now st = None \<Longrightarrow>
   signout p st = (ok (signout_page p),
     st\<lparr>rows := update_where st p (\<lambda>r. r\<lparr>qr_status := used\<rparr>), faults := tl (faults st)\<rparr>)"
  by (simp add: signout_def db_query_ok signout_callback_def)

lemma signout_fail:
  "fault_now st = Some e \<Longrightarrow> signout p st = (send_500 e, st\<lparr>faults := tl (faults st)\<rparr>)"
  by (simp add: signout_def db_query_fail signout_callback_def)

lemma signout_id_matches [simp]: "id_matches (snd (signout p st)) = id_matches st"
  by (simp add: signout_def split_beta)

lemma signout_faults [simp]: "faults (snd (signout p st)) = tl (faults st)"
  by (simp add: signout_def split_beta)

lemma put_status_rows:
  "rows (snd (put_status p st)) =
     (case fault_now st of Some e \<Rightarrow> rows st
      | None \<Rightarrow> update_where st p (\<lambda>r. r\<lparr>status := sql_not (status r)\<rparr>))"
  by (simp add: put_status_def split_beta db_query_rows split: option.split)



lemma put_status_id_matches [simp]: "id_matches (snd (put_status p st)) = id_matches st"
  by (simp add: put_status_def split_beta)

lemma update_where_rel:
  assumes "\<And>r. R r r" and "\<And>r. R r (f r)"
  shows "list_all2 R (rows st) (update_where st p f)"
  unfolding update_where_def list_all2_map2
  by (rule list_all2_all_nthI) (simp_all add: assms)

lemma sql_not_twice [simp]: "sql_not (sql_not x) = x"
  by (cases x) simp_all

lemma first_row_map: "first_row (map f xs) = map_option f (first_row xs)"
  by (cases xs) (simp_all add: first_row_def)

lemma signout_select:
  "fault_now st = None \<Longrightarrow>
   select_by_id (snd (signout p st)) p = map (\<lambda>r. r\<lparr>qr_status := used\<rparr>) (select_by_id st p)"
  by (rule select_after_update) (simp_all add: signout_ok)



lemma digit_val_char: "d < 10 \<Longrightarrow> digit_val (digit_char d) = Some d"
proof -
  assume "d < 10"
  then have "d \<in> {0, 1, 2, 3, 4, 5, 6, 7, 8, 9}" by auto
  then show ?thesis
    by (auto simp add: digit_val_def digit_char_def)
qed

lemma read_digits_snoc:
  "read_digits acc (cs @ [c]) =
     (case read_digits acc cs of None \<Rightarrow> None
      | Some a \<Rightarrow> (case digit_val c of None \<Rightarrow> None | Some d \<Rightarrow> Some (10 * a + d)))"
  by (induction cs arbitrary: acc) (simp_all split: option.split)

lemma read_digits_digits: "read_digits 0 (digits n) = Some n"
proof (induction n rule: digits.induct)
  case (1 n)
  show ?case
  proof (cases "n < 10")
    case True
    then show ?thesis by (simp add: digits.simps [of n] digit_val_char)
  next
    case False
    then have "read_digits 0 (digits (n div 10)) = Some (n div 10)" by (rule "1.IH")
    then show ?thesis using False
      by (simp add: digits.simps [of n] read_digits_snoc digit_val_char)
  qed
qed

lemma digits_not_empty: "digits n \<noteq> []"
  by (simp add: digits.simps [of n])

lemma read_nat_digits: "read_nat (digits n) = Some n"
  by (simp add: read_nat_def digits_not_empty read_digits_digits)

lemma embedded_id_qrText: "embedded_id (qrText v) = Some v"
  by (simp add: embedded_id_def qrText_def)

section \<open>Facts about interleaved requests\<close>

lemma no_faults_now: "no_faults st \<Longrightarrow> fault_now st = None"
  by (cases "faults st") (simp_all add: no_faults_def fault_now_def)

lemma no_faults_tl: "no_faults st \<Longrightarrow> list_all (\<lambda>f. f = None) (tl (faults st))"
  by (cases "faults st") (simp_all add: no_faults_def)

lemma redeem_again:
  assumes "id_matches st = id_matches st0"
    and "rows st = rows st0 \<or> rows st = redeemed_rows st0 p"
  shows "update_where st p (\<lambda>r. r\<lparr>qr_status := used\<rparr>) = redeemed_rows st0 p"
proof -
  let ?f = "\<lambda>r. r\<lparr>qr_status := used\<rparr>"
  have w: "where_id st = where_id st0" using assms(1) by (rule where_id_cong)
  from assms(2) show ?thesis
  proof
    assume "rows st = rows st0"
    then show ?thesis by (simp add: redeemed_rows_def update_where_def w)
  next
    assume "rows st = redeemed_rows st0 p"
    then have "update_where st p ?f = update_where st0 p (?f \<circ> ?f)"
      by (intro update_twice) (simp_all add: assms(1) redeemed_rows_def)
    also have "?f \<circ> ?f = ?f" by (simp add: fun_eq_iff)
    finally show ?thesis by (simp add: redeemed_rows_def)
  qed
qed

lemma advance_sent:
  assumes "no_faults st" and "id_matches st = id_matches st0"
    and "rows st = rows st0 \<or> rows st = redeemed_rows st0 p"
    and "advance p (Sent, st) = (a', st')"
  shows "no_faults st' \<and> id_matches st' = id_matches st0 \<and> well p a' \<and> a' \<noteq> Sent
       \<and> rows st' = redeemed_rows st0 p"
proof -
  have "fault_now st = None" using assms(1) by (rule no_faults_now)
  then have "a' = Answered (Inr Ok_packet)"
    and "st' = st\<lparr>rows := update_where st p (\<lambda>r. r\<lparr>qr_status := used\<rparr>), faults := tl (faults st)\<rparr>"
    using assms(4) by (simp_all add: db_query_ok)
  then show ?thesis
    using assms(1,2) redeem_again [OF assms(2,3)]
    by (simp add: well_def no_faults_def no_faults_tl [OF assms(1)])
qed

lemma advance_later:
  assumes "well p a" and "a \<noteq> Sent" and "advance p (a, st) = (a', st')"
  shows "st' = st \<and> well p a' \<and> a' \<noteq> Sent"
  using assms by (cases a) (auto simp add: well_def signout_callback_def split: sum.splits)

lemma advance_inv_first:
  assumes "consistent st0 p (a, b, st)" and "advance p (a, st) = (a', st')"
  shows "consistent st0 p (a', b, st')"
proof (cases "a = Sent")
  case True
  have "rows st = rows st0 \<or> rows st = redeemed_rows st0 p"
    using assms(1) by (simp add: consistent_def split: if_splits)
  then show ?thesis
    using advance_sent [of st st0 p a' st'] assms True by (simp add: consistent_def)
next
  case False
  then show ?thesis
    using advance_later [of p a st a' st'] assms by (simp add: consistent_def)
qed

lemma advance_inv_second:
  assumes "consistent st0 p (a, b, st)" and "advance p (b, st) = (b', st')"
  shows "consistent st0 p (a, b', st')"
proof (cases "b = Sent")
  case True
  have "rows st = rows st0 \<or> rows st = redeemed_rows st0 p"
    using assms(1) by (simp add: consistent_def split: if_splits)
  then show ?thesis
    using advance_sent [of st st0 p b' st'] assms True by (simp add: consistent_def)
next
  case False
  then show ?thesis
    using advance_later [of p b st b' st'] assms by (simp add: consistent_def)
qed

lemma interleave_inv:
  "consistent st0 p c \<Longrightarrow> consistent st0 p (interleave p sch c)"
proof (induction sch arbitrary: c)
  case Nil
  then show ?case by simp
next
  case (Cons x sch)
  obtain a b st where c: "c = (a, b, st)" by (cases c) auto
  show ?case
  proof (cases x)
    case True
    obtain b' st' where s: "advance p (b, st) = (b', st')" by (cases "advance p (b, st)") auto
    have "consistent st0 p (a, b', st')" using Cons.prems s unfolding c by (rule advance_inv_second)
    then have "consistent st0 p (interleave p sch (a, b', st'))" by (rule Cons.IH)
    then show ?thesis using True s by (simp add: c)
  next
    case False
    obtain a' st' where s: "advance p (a, st) = (a', st')" by (cases "advance p (a, st)") auto
    have "consistent st0 p (a', b, st')" using Cons.prems s unfolding c by (rule advance_inv_first)
    then have "consistent st0 p (interleave p sch (a', b, st'))" by (rule Cons.IH)
    then show ?thesis using False s by (simp add: c)
  qed
qed

lemma advance_progress: "progress (fst (advance p (ph, st))) = min 2 (Suc (progress ph))"
  by (cases ph) (simp_all add: split_beta)

lemma interleave_progress:
  "interleave p sch (a, b, st) = (a', b', st') \<Longrightarrow>
   progress a' = min 2 (progress a + length (filter Not sch))
   \<and> progress b' = min 2 (progress b + length (filter id sch))"
proof (induction sch arbitrary: a b st)
  case Nil
  then show ?case by (cases a; cases b) auto
next
  case (Cons x sch)
  show ?case
  proof (cases x)
    case True
    obtain b1 st1 where s: "advance p (b, st) = (b1, st1)" by (cases "advance p (b, st)") auto
    have "progress b1 = min 2 (Suc (progress b))" using advance_progress [of p b st] s by simp
    moreover have "interleave p sch (a, b1, st1) = (a', b', st')"
      using Cons.prems True s by simp
    ultimately show ?thesis using Cons.IH [of a b1 st1] True by auto
  next
    case False
    obtain a1 st1 where s: "advance p (a, st) = (a1, st1)" by (cases "advance p (a, st)") auto
    have "progress a1 = min 2 (Suc (progress a))" using advance_progress [of p a st] s by simp
    moreover have "interleave p sch (a1, b, st1) = (a', b', st')"
      using Cons.prems False s by simp
    ultimately show ?thesis using Cons.IH [of a1 b st1] False by auto
  qed
qed

lemma progress_two: "progress ph = 2 \<Longrightarrow> well p ph \<Longrightarrow> ph = Finished (ok (signout_page p))"
  by (cases ph) (simp_all add: well_def)

section \<open>Evaluating on the front desk\<close>

lemmas desk_eval = select_by_id_def desk_def where_id_def decimal_match_def read_nat_def
  digit_val_def guest_def first_row_def fault_now_def

lemmas handler_eval = signout_def put_status_def put_visitor_def get_card_def db_query_def
  update_where_def set_form_def signout_callback_def put_callback_def truthy_def
  plain_encoder_def plain_decoder_def qrText_def signout_url_def blank_form_def

section \<open>Redeeming marks the token used\<close>

text \<open>
  C1. For every id whose row exists, in particular with \<^verbatim>\<open>qr_status = 'unused'\<close>, a
  \<^verbatim>\<open>GET /api/visitors/signout/:id\<close> that the store executes sets the \<open>qr_status\<close> of that row to
  \<open>used\<close> and changes nothing else of it. The update does not look at the prior state:
  nothing is assumed about the \<open>qr_status\<close> of \<open>r\<close>, and every row the id selects
  afterwards is \<open>used\<close>.
\<close>

theorem signout_sets_used:
  assumes "fault_now st = None" and "first_row (select_by_id st p) = Some r"
  shows "first_row (select_by_id (snd (signout p st)) p) = Some (r\<lparr>qr_status := used\<rparr>)
       \<and> list_all (\<lambda>r'. qr_status r' = used) (select_by_id (snd (signout p st)) p)"
  using assms by (simp add: signout_select first_row_map list_all_iff)

theorem signout_sets_used_witness:
  "fault_now desk = None
   \<and> first_row (select_by_id desk ''42'') = Some (guest 42 ''Asha'' unused)
   \<and> first_row (select_by_id (snd (signout ''42'' desk)) ''42'') = Some (guest 42 ''Asha'' used)"
  using signout_sets_used [of desk "''42''" "guest 42 ''Asha'' unused"]
  by (simp add: desk_eval)

section \<open>The token never becomes unused again\<close>



section \<open>Redeeming an unknown id\<close>

text \<open>
  C3. For every id that selects no row, a \<^verbatim>\<open>GET /api/visitors/signout/:id\<close> that the store
  executes answers with the confirmation page, status 200, and leaves the table as it
  was: no row is created and none is modified.
\<close>

theorem signout_unknown_id:
  assumes "select_by_id st p = []" and "fault_now st = None"
  shows "fst (signout p st) = ok (signout_page p) \<and> rows (snd (signout p st)) = rows st"
  using assms by (simp add: signout_ok update_nothing)

theorem signout_unknown_id_witness:
  "select_by_id desk ''99'' = [] \<and> fault_now desk = None
   \<and> fst (signout ''99'' desk) = ok (signout_page ''99'')
   \<and> rows (snd (signout ''99'' desk)) = [guest 7 ''Ravi'' used, guest 42 ''Asha'' unused]"
  using signout_unknown_id [of desk "''99''"]
  by (simp add: desk_eval)

section \<open>Redeeming twice\<close>



section \<open>Toggling the check-in status\<close>

text \<open>
  C5. \<^verbatim>\<open>PUT /api/visitors/:id/status\<close> is its own inverse on \<open>status\<close>: when the store
  executes both statements, two toggles of the same id give back the table as it was, so
  every visitor has its original \<open>status\<close>. One toggle, executed or failed, leaves the
  \<open>qr_status\<close> of every row as it was.
\<close>

theorem toggle_involution:
  "(fault_now st = None \<and> fault_now (snd (put_status p st)) = None \<longrightarrow>
      rows (snd (put_status p (snd (put_status p st)))) = rows st)
   \<and> map qr_status (rows (snd (put_status p st))) = map qr_status (rows st)"
proof -
  let ?f = "\<lambda>r. r\<lparr>status := sql_not (status r)\<rparr>"
  let ?st' = "snd (put_status p st)"
  have twice: "rows (snd (put_status p ?st')) = rows st"
    if ok1: "fault_now st = None" and ok2: "fault_now ?st' = None"
  proof -
    have r1: "rows ?st' = update_where st p ?f" using ok1 by (simp add: put_status_rows)
    have "update_where ?st' p ?f = update_where st p (?f \<circ> ?f)"
      by (rule update_twice) (simp_all add: r1)
    also have "?f \<circ> ?f = (\<lambda>r. r)" by (simp add: fun_eq_iff)
    also have "update_where st p (\<lambda>r. r) = rows st" by (simp add: update_where_def)
    finally show ?thesis using ok2 by (simp add: put_status_rows [of p ?st'])
  qed
  have "list_all2 (\<lambda>r r'. qr_status r' = qr_status r) (rows st) (rows ?st')"
    by (cases "fault_now st") (simp_all add: put_status_rows update_where_rel list_all2_refl)
  then have "map qr_status (rows ?st') = map qr_status (rows st)"
    by (induction rule: list_all2_induct) simp_all
  with twice show ?thesis by blast
qed

theorem toggle_involution_witness:
  "fault_now desk = None \<and> fault_now (snd (put_status ''42'' desk)) = None
   \<and> map status (rows (snd (put_status ''42'' desk))) = [Some True, Some False]
   \<and> rows (snd (put_status ''42'' (snd (put_status ''42'' desk)))) = rows desk"
  using toggle_involution [of desk "''42''"]
  by (simp add: desk_eval handler_eval)

section \<open>The token leads back to the visitor\<close>

text \<open>
  C6. The text that both \<^verbatim>\<open>GET /api/visitors/:id/card\<close> and the callback of \<^verbatim>\<open>POST /\<close> hand
  to the encoder is the redemption URL \<^verbatim>\<open>.../signout/{v}\<close>, and the id read back from it is
  \<open>v\<close>. Through any encoder \<open>enc\<close> that a decoder \<open>dec\<close> inverts: the token in the
  response of the card route decodes to a URL whose embedded id is \<open>v\<close>, and the token
  made for the inserted row \<open>n\<close> decodes to a URL whose embedded id reads as the number
  \<open>n\<close>.
\<close>

theorem token_round_trip:
  assumes "\<And>t q. enc t = Inr q \<Longrightarrow> dec q = t"
  shows "embedded_id (qrText v) = Some v
       \<and> (\<forall>q. enc (qrText v) = Inr q \<longrightarrow>
            fst (get_card enc v st) = ok (Json_qr q) \<and> embedded_id (dec q) = Some v)
       \<and> (\<forall>q. enc (qrText (digits n)) = Inr q \<longrightarrow>
            post_callback enc (Inr n) = Responded (ok (Json_created n q))
            \<and> Option.bind (embedded_id (dec q)) read_nat = Some n)"
  using assms
  by (auto simp add: get_card_def post_callback_def embedded_id_qrText read_nat_digits)

theorem token_round_trip_witness:
  "plain_encoder (qrText ''42'') = Inr ''data:text/plain,http://localhost:3001/api/visitors/signout/42''
   \<and> fst (get_card plain_encoder ''42'' desk)
       = ok (Json_qr ''data:text/plain,http://localhost:3001/api/visitors/signout/42'')
   \<and> embedded_id (plain_decoder ''data:text/plain,http://localhost:3001/api/visitors/signout/42'')
       = Some ''42''
   \<and> post_callback plain_encoder (Inr 42)
       = Responded (ok (Json_created 42 ''data:text/plain,http://localhost:3001/api/visitors/signout/42''))
   \<and> Option.bind (embedded_id (plain_decoder
         ''data:text/plain,http://localhost:3001/api/visitors/signout/42'')) read_nat = Some 42"
proof -
  have left_inverse: "\<And>t q. plain_encoder t = Inr q \<Longrightarrow> plain_decoder q = t"
    by (auto simp add: plain_encoder_def plain_decoder_def split: if_splits)
  have d: "digits 42 = ''42''" by (simp add: digits.simps digit_char_def)
  have e: "plain_encoder (qrText ''42'')
      = Inr ''data:text/plain,http://localhost:3001/api/visitors/signout/42''"
    by (simp add: plain_encoder_def qrText_def signout_url_def)
  show ?thesis
    using token_round_trip [of plain_encoder plain_decoder "''42''" desk 42, OF left_inverse] left_inverse d e
    by (simp add: read_nat_def digit_val_def)
qed

section \<open>Issuing a token leaves the table alone\<close>

text \<open>
  C7. \<^verbatim>\<open>GET /api/visitors/:id/card\<close> has no effect on the store: for every id, every
  encoder and every store, the store after the call is the store before it, so every
  field of every row is unchanged.
\<close>

theorem card_no_side_effect: "snd (get_card enc ident st) = st"
  by (simp add: get_card_def split: sum.split)

section \<open>Failures reach the caller\<close>

text \<open>
  C8. \<^verbatim>\<open>GET /api/visitors/signout/:id\<close> answers with status 500 exactly when the store fails on
  its statement; the body is then the error of the store, the table is as it was, and
  one outcome of the store has been consumed, no more: the statement is not sent again.
  \<^verbatim>\<open>GET /api/visitors/:id/card\<close> answers with status 500 exactly when the encoder fails on the
  redemption URL; the body is then the error of the encoder. Otherwise each answers with
  its success body.
\<close>

theorem failures_surface:
  "((code (fst (signout p st)) = 500) = (fault_now st \<noteq> None))
   \<and> (\<forall>e. fault_now st = Some e \<longrightarrow>
          fst (signout p st) = send_500 e \<and> rows (snd (signout p st)) = rows st
          \<and> faults (snd (signout p st)) = tl (faults st))
   \<and> (fault_now st = None \<longrightarrow> fst (signout p st) = ok (signout_page p))
   \<and> ((code (fst (get_card enc p st)) = 500) = isl (enc (qrText p)))
   \<and> (\<forall>e. enc (qrText p) = Inl e \<longrightarrow> get_card enc p st = (send_500 e, st))
   \<and> (\<forall>q. enc (qrText p) = Inr q \<longrightarrow> get_card enc p st = (ok (Json_qr q), st))"
proof -
  have a: "(code (fst (signout p st)) = 500) = (fault_now st \<noteq> None)"
    by (cases "fault_now st") (simp_all add: signout_ok signout_fail ok_def send_500_def)
  have b: "(code (fst (get_card enc p st)) = 500) = isl (enc (qrText p))"
    by (cases "enc (qrText p)") (simp_all add: get_card_def ok_def send_500_def)
  show ?thesis
    using a b by (simp add: signout_ok signout_fail get_card_def)
qed

theorem failures_surface_witness:
  "fault_now flaky_desk = Some ''read ECONNRESET''
   \<and> fst (signout ''42'' flaky_desk) = send_500 ''read ECONNRESET''
   \<and> rows (snd (signout ''42'' flaky_desk)) = rows flaky_desk
   \<and> faults (snd (signout ''42'' flaky_desk)) = [None]
   \<and> plain_encoder (qrText long_id) = Inl ''The amount of data is too big''
   \<and> get_card plain_encoder long_id desk = (send_500 ''The amount of data is too big'', desk)
   \<and> fault_now desk = None \<and> fst (signout ''42'' desk) = ok (signout_page ''42'')"
  using failures_surface [of "''42''" flaky_desk plain_encoder]
    failures_surface [of long_id desk plain_encoder]
    failures_surface [of "''42''" desk plain_encoder]
  by (simp add: flaky_desk_def long_id_def fault_now_def desk_def plain_encoder_def qrText_def
      signout_url_def)

section \<open>Two devices scan the same token\<close>

text \<open>
  C9. Redemption is not exclusive. Two requests \<^verbatim>\<open>GET /api/visitors/signout/:id\<close> for the
  same id run at once, their steps interleaved by any schedule that gives each request
  its two steps, on a store that does not fail: both finish with the confirmation page,
  neither is told that the token was already used, and the row of the id ends \<open>used\<close>.
\<close>

theorem concurrent_signout:
  assumes "no_faults st" and "first_row (select_by_id st p) = Some r"
    and "2 \<le> length (filter Not sch)" and "2 \<le> length (filter id sch)"
  shows "\<exists>st'. interleave p sch (Sent, Sent, st)
            = (Finished (ok (signout_page p)), Finished (ok (signout_page p)), st')
          \<and> first_row (select_by_id st' p) = Some (r\<lparr>qr_status := used\<rparr>)"
proof -
  obtain a b st' where run: "interleave p sch (Sent, Sent, st) = (a, b, st')"
    by (cases "interleave p sch (Sent, Sent, st)") auto
  have "consistent st p (Sent, Sent, st)" using assms(1) by (simp add: consistent_def well_def)
  then have "consistent st p (interleave p sch (Sent, Sent, st))" by (rule interleave_inv)
  then have i: "consistent st p (a, b, st')" by (simp add: run)
  have "progress a = 2" and "progress b = 2"
    using interleave_progress [OF run] assms(3,4) by simp_all
  then have a: "a = Finished (ok (signout_page p))" and b: "b = Finished (ok (signout_page p))"
    using i by (simp_all add: consistent_def progress_two)
  have "id_matches st' = id_matches st" and "rows st' = update_where st p (\<lambda>r. r\<lparr>qr_status := used\<rparr>)"
    using i a by (simp_all add: consistent_def redeemed_rows_def)
  then have "select_by_id st' p = map (\<lambda>r. r\<lparr>qr_status := used\<rparr>) (select_by_id st p)"
    by (rule select_after_update) simp
  then have "first_row (select_by_id st' p) = Some (r\<lparr>qr_status := used\<rparr>)"
    using assms(2) by (simp add: first_row_map)
  then show ?thesis using run a b by simp
qed

theorem concurrent_signout_witness:
  "no_faults desk \<and> first_row (select_by_id desk ''42'') = Some (guest 42 ''Asha'' unused)
   \<and> interleave ''42'' [False, True, True, False] (Sent, Sent, desk)
       = (Finished (ok (signout_page ''42'')), Finished (ok (signout_page ''42'')),
          desk\<lparr>rows := [guest 7 ''Ravi'' used, guest 42 ''Asha'' used]\<rparr>)
   \<and> first_row (select_by_id (desk\<lparr>rows := [guest 7 ''Ravi'' used, guest 42 ''Asha'' used]\<rparr>) ''42'')
       = Some (guest 42 ''Asha'' used)"
  using concurrent_signout [of desk "''42''" "guest 42 ''Asha'' unused" "[False, True, True, False]"]
  by (simp add: desk_eval handler_eval no_faults_def)

section \<open>What an update of a visitor leaves alone\<close>



end
